theory Spec2Isabelle
  imports Main "HOL-Library.Multiset"
begin

unbundle bit_operations_syntax

section \<open>Python values used by the Sudoku programs\<close>

text \<open>
  Cell indices and digits are Python integers, modelled as \<open>int\<close> (\<open>//\<close> is \<open>div\<close>,
  \<open>%\<close> is \<open>mod\<close>, \<open>&\<close> is \<open>AND\<close>; all three agree with Python on negative numbers).
  A colour label is whatever the colouring oracle returns; the decoder of \<open>sudoku.py\<close>
  also uses the string \<open>'?'\<close> as a label, so labels are integers or strings. These are
  hashable values; labels that are not are added with \<open>pylabel\<close> below.
  The exceptions the modelled code can raise are values of \<open>py_error\<close>.
\<close>

datatype py_error = KeyError | ValueError | IndexError | TypeError

datatype label = LInt int | LStr string

type_synonym clue = "int \<times> int"

type_synonym coloring = "int \<rightharpoonup> label"

text \<open>\<open>range(n)\<close> and \<open>range(a, b)\<close>.\<close>

definition py_range :: "int \<Rightarrow> int list" where
  "py_range n = [0..n - 1]"

definition py_range2 :: "int \<Rightarrow> int \<Rightarrow> int list" where
  "py_range2 a b = [a..b - 1]"

text \<open>\<open>itertools.combinations(xs, 2)\<close>: the pairs of positions \<open>p < q\<close>, in lexicographic order.\<close>

fun combinations2 :: "'a list \<Rightarrow> ('a \<times> 'a) list" where
  "combinations2 [] = []"
| "combinations2 (x # xs) = map (Pair x) xs @ combinations2 xs"

text \<open>\<open>enumerate(xs)\<close>.\<close>

definition py_enumerate :: "'a list \<Rightarrow> (int \<times> 'a) list" where
  "py_enumerate xs = zip (map int [0..<length xs]) xs"

text \<open>\<open>a[i]\<close> on a list: an index in \<open>[-len(a), 0)\<close> counts from the end, any other index outside \<open>[0, len(a))\<close> raises \<open>IndexError\<close>.\<close>

definition list_getitem :: "'a list \<Rightarrow> int \<Rightarrow> py_error + 'a" where
  "list_getitem a i =
     (if 0 \<le> i \<and> i < int (length a) then Inr (a ! nat i)
      else if - int (length a) \<le> i \<and> i < 0 then Inr (a ! nat (int (length a) + i))
      else Inl IndexError)"

text \<open>\<open>d[k]\<close> and \<open>d.get(k, default)\<close> on a dictionary.\<close>

definition dict_getitem :: "('k \<rightharpoonup> 'v) \<Rightarrow> 'k \<Rightarrow> py_error + 'v" where
  "dict_getitem d k = (case d k of None \<Rightarrow> Inl KeyError | Some v \<Rightarrow> Inr v)"

definition dict_get :: "('k \<rightharpoonup> 'v) \<Rightarrow> 'k \<Rightarrow> 'v \<Rightarrow> 'v" where
  "dict_get d k dflt = (case d k of None \<Rightarrow> dflt | Some v \<Rightarrow> v)"

section \<open>Adjacency\<close>

text \<open>\<open>sudoku.py\<close>, \<open>adjacent\<close>.\<close>

definition adjacent :: "int \<Rightarrow> int \<Rightarrow> bool" where
  "adjacent i j =
     (i \<noteq> j \<and> (i div 9 = j div 9 \<or> i mod 9 = j mod 9 \<or>
        ((i div 27 = j div 27) \<and> (i mod 9 div 3 = j mod 9 div 3))))"

text \<open>\<open>sudoku4.py\<close>, \<open>adjacent\<close>: \<open>any(i & k == j & k for k in (3, 10, 12))\<close>.\<close>

definition adjacent4 :: "int \<Rightarrow> int \<Rightarrow> bool" where
  "adjacent4 i j = (i \<noteq> j \<and> list_ex (\<lambda>k. i AND k = j AND k) [3, 10, 12])"

section \<open>The constraint graph\<close>

text \<open>
  A \<open>networkx.Graph\<close> keeps a set of nodes and, for every undirected edge \<open>u - v\<close>, the two
  adjacency entries \<open>adj[u][v]\<close> and \<open>adj[v][u]\<close>; \<open>add_edge\<close> adds both nodes and both
  entries, and adding an edge twice changes nothing. A self-loop is an entry \<open>adj[u][u]\<close>.
\<close>

record graph =
  nodes :: "int set"
  adj :: "(int \<times> int) set"

definition empty_graph :: graph where
  "empty_graph = \<lparr>nodes = {}, adj = {}\<rparr>"

definition add_edge :: "int \<Rightarrow> int \<Rightarrow> graph \<Rightarrow> graph" where
  "add_edge u v G = \<lparr>nodes = insert u (insert v (nodes G)),
                     adj = insert (u, v) (insert (v, u) (adj G))\<rparr>"

definition add_edges_from :: "(int \<times> int) list \<Rightarrow> graph \<Rightarrow> graph" where
  "add_edges_from es G = fold (\<lambda>(u, v). add_edge u v) es G"

text \<open>The loop \<open>for c1, c2 in combinations(clues, 2): if c1[1] != c2[1]: G.add_edge(c1[0], c2[0])\<close>.\<close>

definition add_clue_edges :: "clue list \<Rightarrow> graph \<Rightarrow> graph" where
  "add_clue_edges clues G =
     fold (\<lambda>(c1, c2) G. if snd c1 \<noteq> snd c2 then add_edge (fst c1) (fst c2) G else G)
       (combinations2 clues) G"

text \<open>\<open>sudoku.py\<close>, \<open>make_sudoku_graph\<close>.\<close>

definition make_sudoku_graph :: "clue list \<Rightarrow> graph" where
  "make_sudoku_graph clues =
     add_clue_edges clues
       (add_edges_from (filter (\<lambda>(i, j). adjacent i j) (combinations2 (py_range 81)))
          empty_graph)"

text \<open>\<open>sudoku4.py\<close>, \<open>make_sudoku_graph\<close>.\<close>

definition make_sudoku_graph4 :: "clue list \<Rightarrow> graph" where
  "make_sudoku_graph4 clues =
     add_clue_edges clues
       (add_edges_from (filter (\<lambda>(i, j). adjacent4 i j) (combinations2 (py_range 16)))
          empty_graph)"

text \<open>What \<open>G.edges\<close>, \<open>G.number_of_edges()\<close> and \<open>nx.number_of_selfloops(G) > 0\<close> read off a graph.\<close>

definition edge_set :: "graph \<Rightarrow> int set set" where
  "edge_set G = (\<lambda>(u, v). {u, v}) ` adj G"

definition number_of_edges :: "graph \<Rightarrow> nat" where
  "number_of_edges G = card (edge_set G)"

definition has_selfloop :: "graph \<Rightarrow> bool" where
  "has_selfloop G = (\<exists>(u, v)\<in>adj G. u = v)"

section \<open>Decoding a colouring\<close>

text \<open>
  \<open>sudoku.py\<close>, \<open>decode\<close>, on a colouring with hashable labels. The dictionary comprehension
  \<open>{coloring[x]: y for x, y in clues if x in coloring}\<close> visits the clues in list order and
  stores each entry into the dictionary built so far.
\<close>

fun build_lookup :: "coloring \<Rightarrow> clue list \<Rightarrow> (label \<rightharpoonup> int) \<Rightarrow> py_error + (label \<rightharpoonup> int)" where
  "build_lookup coloring [] lookup = Inr lookup"
| "build_lookup coloring ((x, y) # clues) lookup =
     (if coloring x \<noteq> None then
        (case dict_getitem coloring x of
           Inl e \<Rightarrow> Inl e
         | Inr c \<Rightarrow> build_lookup coloring clues (lookup(c \<mapsto> y)))
      else build_lookup coloring clues lookup)"

definition decode :: "coloring \<Rightarrow> clue list \<Rightarrow> py_error + int list" where
  "decode coloring clues =
     (case build_lookup coloring clues Map.empty of
        Inl e \<Rightarrow> Inl e
      | Inr lookup \<Rightarrow>
          Inr (map (\<lambda>i. dict_get lookup (dict_get coloring i (LStr ''?'')) 9) (py_range 81)))"

text \<open>
  The labels above can all key a dictionary. A colouring may also carry a value that
  cannot, such as a list: hashing it raises \<open>TypeError\<close>. \<open>decode_any\<close> is \<open>decode\<close> of
  \<open>sudoku.py\<close> on such colourings. The dictionary comprehension hashes \<open>coloring[x]\<close> to
  store the entry, and \<open>lookup.get\<close> hashes \<open>coloring.get(i, '?')\<close> to look it up, cell by
  cell in the order of \<open>range(81)\<close>.
\<close>

datatype pylabel = Hashable label | PyList "int list"

type_synonym raw_coloring = "int \<rightharpoonup> pylabel"

fun hashable :: "pylabel \<Rightarrow> bool" where
  "hashable (Hashable c) = True"
| "hashable (PyList xs) = False"

fun hash_key :: "pylabel \<Rightarrow> py_error + label" where
  "hash_key (Hashable c) = Inr c"
| "hash_key (PyList xs) = Inl TypeError"

fun build_lookup_any :: "raw_coloring \<Rightarrow> clue list \<Rightarrow> (label \<rightharpoonup> int) \<Rightarrow> py_error + (label \<rightharpoonup> int)" where
  "build_lookup_any coloring [] lookup = Inr lookup"
| "build_lookup_any coloring ((x, y) # clues) lookup =
     (if coloring x \<noteq> None then
        (case dict_getitem coloring x of
           Inl e \<Rightarrow> Inl e
         | Inr v \<Rightarrow>
             (case hash_key v of
                Inl e \<Rightarrow> Inl e
              | Inr c \<Rightarrow> build_lookup_any coloring clues (lookup(c \<mapsto> y))))
      else build_lookup_any coloring clues lookup)"

fun decode_cells :: "(label \<rightharpoonup> int) \<Rightarrow> raw_coloring \<Rightarrow> int list \<Rightarrow> py_error + int list" where
  "decode_cells lookup coloring [] = Inr []"
| "decode_cells lookup coloring (i # cells) =
     (case hash_key (dict_get coloring i (Hashable (LStr ''?''))) of
        Inl e \<Rightarrow> Inl e
      | Inr c \<Rightarrow>
          (case decode_cells lookup coloring cells of
             Inl e \<Rightarrow> Inl e
           | Inr vs \<Rightarrow> Inr (dict_get lookup c 9 # vs)))"

definition decode_any :: "raw_coloring \<Rightarrow> clue list \<Rightarrow> py_error + int list" where
  "decode_any coloring clues =
     (case build_lookup_any coloring clues Map.empty of
        Inl e \<Rightarrow> Inl e
      | Inr lookup \<Rightarrow> decode_cells lookup coloring (py_range 81))"

text \<open>
  \<open>sudoku4.py\<close>, \<open>decode\<close>: \<open>{coloring[x]: y for x, y in clues}\<close> and
  \<open>[lookup[coloring[i]] for i in range(16)]\<close>, both with raising subscripts. The function
  prints the rows through \<open>disp\<close>; the model returns the rows printed.
\<close>

fun build_lookup4 :: "coloring \<Rightarrow> clue list \<Rightarrow> (label \<rightharpoonup> int) \<Rightarrow> py_error + (label \<rightharpoonup> int)" where
  "build_lookup4 coloring [] lookup = Inr lookup"
| "build_lookup4 coloring ((x, y) # clues) lookup =
     (case dict_getitem coloring x of
        Inl e \<Rightarrow> Inl e
      | Inr c \<Rightarrow> build_lookup4 coloring clues (lookup(c \<mapsto> y)))"

fun lookup_cells :: "(label \<rightharpoonup> int) \<Rightarrow> coloring \<Rightarrow> int list \<Rightarrow> py_error + int list" where
  "lookup_cells lookup coloring [] = Inr []"
| "lookup_cells lookup coloring (i # cells) =
     (case dict_getitem coloring i of
        Inl e \<Rightarrow> Inl e
      | Inr c \<Rightarrow>
          (case dict_getitem lookup c of
             Inl e \<Rightarrow> Inl e
           | Inr v \<Rightarrow>
               (case lookup_cells lookup coloring cells of
                  Inl e \<Rightarrow> Inl e
                | Inr vs \<Rightarrow> Inr (v # vs))))"

definition disp4 :: "'a list \<Rightarrow> 'a list list" where
  "disp4 solution = map (\<lambda>i. take 4 (drop i solution)) [0, 4, 8, 12]"

definition decode4 :: "coloring \<Rightarrow> clue list \<Rightarrow> py_error + int list list" where
  "decode4 coloring clues =
     (case build_lookup4 coloring clues Map.empty of
        Inl e \<Rightarrow> Inl e
      | Inr lookup \<Rightarrow>
          (case lookup_cells lookup coloring (py_range 16) of
             Inl e \<Rightarrow> Inl e
           | Inr solution \<Rightarrow> Inr (disp4 solution)))"

section \<open>Extracting the clues\<close>

text \<open>
  A character is a \<open>char\<close>, read as a code point below 256. On that range
  \<open>str.isdecimal\<close> holds of \<open>0\<close> to \<open>9\<close>, \<open>str.isdigit\<close> holds of these and of the
  superscripts U+00B2, U+00B3 and U+00B9, and \<open>int\<close> converts the decimal digits only and
  raises \<open>ValueError\<close> on any other single character.
\<close>

definition isdecimal :: "char \<Rightarrow> bool" where
  "isdecimal x = (x \<in> set ''0123456789'')"

definition isdigit :: "char \<Rightarrow> bool" where
  "isdigit x = (isdecimal x \<or> x \<in> set [CHR 0xB2, CHR 0xB3, CHR 0xB9])"

definition py_int :: "char \<Rightarrow> py_error + int" where
  "py_int x = (if isdecimal x then Inr (int (of_char x) - 48) else Inl ValueError)"

text \<open>The comprehension \<open>[(i, int(x)) for i, x in enumerate(board) if x.isdigit() and x != '0']\<close>.\<close>

fun real_clues :: "(int \<times> char) list \<Rightarrow> py_error + clue list" where
  "real_clues [] = Inr []"
| "real_clues ((i, x) # rest) =
     (if isdigit x \<and> x \<noteq> CHR ''0'' then
        (case py_int x of
           Inl e \<Rightarrow> Inl e
         | Inr v \<Rightarrow>
             (case real_clues rest of
                Inl e \<Rightarrow> Inl e
              | Inr clues \<Rightarrow> Inr ((i, v) # clues)))
      else real_clues rest)"

text \<open>
  \<open>sudoku.py\<close>, \<open>make_clues\<close>. The order in which Python iterates over the set \<open>missing\<close>
  is not fixed by the language, so the model takes it as the parameter \<open>iter\<close>, the
  function that lists the elements of a set in iteration order.
\<close>

definition make_clues :: "(int set \<Rightarrow> int list) \<Rightarrow> string \<Rightarrow> py_error + clue list" where
  "make_clues iter board =
     (case real_clues (py_enumerate board) of
        Inl e \<Rightarrow> Inl e
      | Inr clues \<Rightarrow>
          (let missing = set (py_range2 1 10) - set (map snd clues)
           in Inr (clues @ map (\<lambda>(i, j). (81 + i, j)) (py_enumerate (iter missing)))))"

section \<open>Scoring\<close>

text \<open>
  \<open>sudoku.py\<close>, \<open>cost\<close>: the sum, from 0, of \<open>a[i] == a[j]\<close> (\<open>True\<close> counts 1) over the
  adjacent pairs of \<open>combinations(range(81), 2)\<close>.
\<close>

fun cost_sum :: "'a list \<Rightarrow> (int \<times> int) list \<Rightarrow> py_error + int" where
  "cost_sum a [] = Inr 0"
| "cost_sum a ((i, j) # pairs) =
     (case list_getitem a i of
        Inl e \<Rightarrow> Inl e
      | Inr x \<Rightarrow>
          (case list_getitem a j of
             Inl e \<Rightarrow> Inl e
           | Inr y \<Rightarrow>
               (case cost_sum a pairs of
                  Inl e \<Rightarrow> Inl e
                | Inr s \<Rightarrow> Inr ((if x = y then 1 else 0) + s))))"

definition cost :: "'a list \<Rightarrow> py_error + int" where
  "cost a = cost_sum a (filter (\<lambda>(i, j). adjacent i j) (combinations2 (py_range 81)))"

section \<open>Notions used to state the properties\<close>

text \<open>The clues whose cell carries the colour \<open>c\<close>, in list order, and the value of the last one.\<close>

definition clues_colored :: "coloring \<Rightarrow> clue list \<Rightarrow> label \<Rightarrow> clue list" where
  "clues_colored coloring clues c = filter (\<lambda>(x, y). coloring x = Some c) clues"

definition last_value :: "clue list \<Rightarrow> int option" where
  "last_value ps = (if ps = [] then None else Some (snd (last ps)))"

text \<open>
  The clue list of \<open>main\<close> in \<open>sudoku4.py\<close>, and a colouring of the 16 cells that labels
  each cell with the digit of a solved grid.
\<close>

definition example_clues4 :: "clue list" where
  "example_clues4 = [(0, 4), (2, 1), (7, 2), (8, 3), (13, 4)]"

definition example_coloring4 :: coloring where
  "example_coloring4 = map_of (zip [0..15] (map LInt [4,2,1,3, 1,3,4,2, 3,1,2,4, 2,4,3,1]))"

text \<open>A grid with the clues 1 and 2 in its first two cells and 79 empty cells.\<close>

definition example_grid :: string where
  "example_grid = ''12'' @ replicate 79 (CHR ''.'')"

section \<open>Properties of adjacency\<close>

lemma masks_cell4:
  "\<forall>i\<in>set [0..15]. i AND 3 = i mod 4 \<and> i AND 12 = 4 * (i div 4) \<and>
      i AND 10 = 8 * (i div 8) + 2 * (i mod 4 div 2) \<and> i mod 4 div 2 < 2 \<and> 0 \<le> i mod 4 div 2"
  by code_simp

text \<open>
  Claim C3. For cell indices \<open>i\<close>, \<open>j\<close> in \<open>[0, 16)\<close> the bit-mask test of the 4x4
  variant (masks 3, 10, 12) holds exactly when the cells differ and share a row
  (\<open>i // 4\<close>), a column (\<open>i % 4\<close>) or a 2x2 block (\<open>i // 8\<close> and \<open>(i % 4) // 2\<close>).
\<close>

theorem adjacent4_row_col_block:
  assumes "0 \<le> i" "i < 16" "0 \<le> j" "j < 16"
  shows "adjacent4 i j =
           (i \<noteq> j \<and> (i div 4 = j div 4 \<or> i mod 4 = j mod 4 \<or>
              (i div 8 = j div 8 \<and> i mod 4 div 2 = j mod 4 div 2)))"
proof -
  from assms have "i \<in> set [0..15]" and "j \<in> set [0..15]"
    by simp_all
  with masks_cell4 have i: "i AND 3 = i mod 4" "i AND 12 = 4 * (i div 4)"
      "i AND 10 = 8 * (i div 8) + 2 * (i mod 4 div 2)" "i mod 4 div 2 < 2" "0 \<le> i mod 4 div 2"
    and j: "j AND 3 = j mod 4" "j AND 12 = 4 * (j div 4)"
      "j AND 10 = 8 * (j div 8) + 2 * (j mod 4 div 2)" "j mod 4 div 2 < 2" "0 \<le> j mod 4 div 2"
    by blast+
  have blk: "(8 * a + 2 * b = 8 * c + 2 * d) = (a = c \<and> b = d)"
    if "0 \<le> b" "b < 2" "0 \<le> d" "d < 2" for a b c d :: int
    using that by arith
  have "(i AND 10 = j AND 10) = (i div 8 = j div 8 \<and> i mod 4 div 2 = j mod 4 div 2)"
    unfolding i j using i(4,5) j(4,5) by (intro blk)
  then show ?thesis
    unfolding adjacent4_def using i(1,2) j(1,2) by auto
qed

theorem adjacent4_row_col_block_witness:
  "(0::int) \<le> 5 \<and> (5::int) < 16 \<and> (0::int) \<le> 0 \<and> (0::int) < 16 \<and> adjacent4 5 0
   \<and> (0::int) \<le> 6 \<and> (6::int) < 16 \<and> (0::int) \<le> 9 \<and> (9::int) < 16 \<and> \<not> adjacent4 6 9"
  using adjacent4_row_col_block [of 5 0] adjacent4_row_col_block [of 6 9]
  by simp

text \<open>
  Claim C5. In both variants the adjacency predicate is irreflexive and symmetric
  (for all integers, hence for all cell indices of the grid).
\<close>

theorem adjacent_irreflexive_symmetric:
  "\<not> adjacent i i \<and> adjacent i j = adjacent j i \<and>
   \<not> adjacent4 i i \<and> adjacent4 i j = adjacent4 j i"
  by (simp add: adjacent_def adjacent4_def eq_commute [of i j]
      eq_commute [of "i div 9"] eq_commute [of "i mod 9"] eq_commute [of "i div 27"]
      eq_commute [of "i mod 9 div 3"] eq_commute [of "i AND 3"] eq_commute [of "i AND 10"]
      eq_commute [of "i AND 12"])

section \<open>The scorer\<close>

lemma adjacent_commute: "adjacent i j = adjacent j i"
  by (simp add: adjacent_def eq_commute [of i j]
      eq_commute [of "i div 9"] eq_commute [of "i mod 9"] eq_commute [of "i div 27"]
      eq_commute [of "i mod 9 div 3"])

lemma adjacent_distinct: "adjacent i j \<Longrightarrow> i \<noteq> j"
  by (simp add: adjacent_def)

lemma combinations2_set_sorted:
  fixes xs :: "int list"
  assumes "sorted xs" "distinct xs"
  shows "set (combinations2 xs) = {(x, y). x \<in> set xs \<and> y \<in> set xs \<and> x < y}"
  using assms
proof (induction xs)
  case Nil
  then show ?case by simp
next
  case (Cons x xs)
  then have "\<forall>y\<in>set xs. x < y"
    by (auto simp: less_le)
  with Cons show ?case
    by (auto simp: image_iff)
qed

lemma combinations2_distinct: "distinct xs \<Longrightarrow> distinct (combinations2 xs)"
proof (induction xs)
  case Nil
  then show ?case by simp
next
  case (Cons x xs)
  have "set (combinations2 xs) \<subseteq> set xs \<times> set xs" for xs :: "'a list"
    by (induction xs) auto
  with Cons show ?case
    by (auto simp: distinct_map inj_on_def)
qed

lemma cost_sum_count:
  assumes "\<forall>(i, j)\<in>set ps. 0 \<le> i \<and> i < int (length a) \<and> 0 \<le> j \<and> j < int (length a)"
  shows "cost_sum a ps = Inr (int (length (filter (\<lambda>(i, j). a ! nat i = a ! nat j) ps)))"
  using assms
  by (induction ps) (auto simp: list_getitem_def)

lemma py_range_set: "set (py_range n) = {i. 0 \<le> i \<and> i < n}"
  by (auto simp: py_range_def)

lemma adjacent_pairs_set:
  "set (filter (\<lambda>(i, j). adjacent i j) (combinations2 (py_range 81)))
     = {(i, j). 0 \<le> i \<and> i < j \<and> j < 81 \<and> adjacent i j}"
  by (auto simp: combinations2_set_sorted py_range_def)

lemma adjacent_pairs_distinct:
  "distinct (filter (\<lambda>(i, j). adjacent i j) (combinations2 (py_range 81)))"
  by (simp add: combinations2_distinct py_range_def)

lemma cost_card:
  assumes "length a = 81"
  shows "cost a = Inr (int (card {(i, j). 0 \<le> i \<and> i < j \<and> j < 81 \<and> adjacent i j
                                    \<and> a ! nat i = a ! nat j}))"
proof -
  let ?ps = "filter (\<lambda>(i, j). adjacent i j) (combinations2 (py_range 81))"
  let ?eq = "\<lambda>(i, j). a ! nat i = a ! nat j"
  have "\<forall>(i, j)\<in>set ?ps. 0 \<le> i \<and> i < int (length a) \<and> 0 \<le> j \<and> j < int (length a)"
    unfolding adjacent_pairs_set using assms by auto
  then have "cost a = Inr (int (length (filter ?eq ?ps)))"
    unfolding cost_def by (rule cost_sum_count)
  also have "length (filter ?eq ?ps) = card (set (filter ?eq ?ps))"
    by (rule distinct_card [symmetric], rule distinct_filter, rule adjacent_pairs_distinct)
  also have "set (filter ?eq ?ps) = {p \<in> set ?ps. ?eq p}"
    by (rule set_filter)
  also have "\<dots> = {(i, j). 0 \<le> i \<and> i < j \<and> j < 81 \<and> adjacent i j
                                    \<and> a ! nat i = a ! nat j}"
    unfolding adjacent_pairs_set by auto
  finally show ?thesis .
qed


text \<open>
  Claim C1. For a solution of 81 entries, \<open>cost\<close> returns the number of index pairs
  \<open>i < j\<close> in \<open>[0, 81)\<close> that are adjacent and hold equal entries; hence the cost is 0
  when no two adjacent cells (same row, column or block) hold the same entry, and
  strictly positive as soon as two adjacent cells do.
\<close>

theorem cost_counts_conflicts:
  assumes "length a = 81"
  shows "cost a = Inr (int (card {(i, j). 0 \<le> i \<and> i < j \<and> j < 81 \<and> adjacent i j
                                    \<and> a ! nat i = a ! nat j}))
       \<and> ((\<forall>i j. 0 \<le> i \<and> i < 81 \<and> 0 \<le> j \<and> j < 81 \<and> adjacent i j
                 \<longrightarrow> a ! nat i \<noteq> a ! nat j) \<longrightarrow> cost a = Inr 0)
       \<and> ((\<exists>i j. 0 \<le> i \<and> i < 81 \<and> 0 \<le> j \<and> j < 81 \<and> adjacent i j
                 \<and> a ! nat i = a ! nat j) \<longrightarrow> (\<exists>n. 0 < n \<and> cost a = Inr n))"
proof -
  let ?S = "{(i, j). 0 \<le> i \<and> i < j \<and> j < 81 \<and> adjacent i j \<and> a ! nat i = a ! nat j}"
  have card: "cost a = Inr (int (card ?S))"
    using assms by (rule cost_card)
  have fin: "finite ?S"
    by (rule finite_subset [of _ "{0..80} \<times> {0..80}"]) auto
  have zero: "cost a = Inr 0"
    if "\<forall>i j. 0 \<le> i \<and> i < 81 \<and> 0 \<le> j \<and> j < 81 \<and> adjacent i j \<longrightarrow> a ! nat i \<noteq> a ! nat j"
  proof -
    from that have "?S = {}" by auto
    with card show ?thesis by simp
  qed
  have pos: "\<exists>n. 0 < n \<and> cost a = Inr n"
    if "\<exists>i j. 0 \<le> i \<and> i < 81 \<and> 0 \<le> j \<and> j < 81 \<and> adjacent i j \<and> a ! nat i = a ! nat j"
  proof -
    from that obtain i j where ij: "0 \<le> i" "i < 81" "0 \<le> j" "j < 81" "adjacent i j"
        "a ! nat i = a ! nat j"
      by blast
    have sym: "adjacent j i"
      using ij(5) by (simp add: adjacent_commute)
    have "i \<noteq> j"
      using ij(5) by (rule adjacent_distinct)
    then have "(i, j) \<in> ?S \<or> (j, i) \<in> ?S"
      using ij sym by auto
    then have "?S \<noteq> {}" by blast
    with fin have "0 < card ?S"
      by (simp add: card_gt_0_iff)
    with card show ?thesis by simp
  qed
  from card zero pos show ?thesis by blast
qed

theorem cost_counts_conflicts_witness:
  "length (replicate 81 (5::int)) = 81
   \<and> (\<exists>n. 0 < n \<and> cost (replicate 81 (5::int)) = Inr n)
   \<and> length [1..81] = 81 \<and> cost [1..81] = Inr 0"
proof -
  have dup: "\<exists>i j. 0 \<le> i \<and> i < 81 \<and> 0 \<le> j \<and> j < 81 \<and> adjacent i j
               \<and> replicate 81 (5::int) ! nat i = replicate 81 (5::int) ! nat j"
    by (rule exI [of _ 0], rule exI [of _ 1]) (simp add: adjacent_def)
  have nodup: "\<forall>i j. 0 \<le> i \<and> i < 81 \<and> 0 \<le> j \<and> j < 81 \<and> adjacent i j
               \<longrightarrow> [1..81] ! nat i \<noteq> [1..81] ! nat j"
    by (auto simp: nth_upto dest: adjacent_distinct)
  have len5: "length (replicate 81 (5::int)) = 81" and len: "length [1..81] = 81"
    by simp_all
  from cost_counts_conflicts [OF len5] dup
  have pos: "\<exists>n. 0 < n \<and> cost (replicate 81 (5::int)) = Inr n"
    by blast
  from cost_counts_conflicts [OF len] nodup
  have zero: "cost [1..81] = Inr 0"
    by blast
  from len5 pos len zero show ?thesis
    by blast
qed

section \<open>The 9x9 decoder\<close>

lemma build_lookup_eq:
  "build_lookup coloring clues m =
     Inr (\<lambda>c. case last_value (clues_colored coloring clues c) of
                 None \<Rightarrow> m c | Some v \<Rightarrow> Some v)"
proof (induction clues arbitrary: m)
  case Nil
  show ?case by (simp add: clues_colored_def last_value_def)
next
  case (Cons p clues)
  obtain x y where p: "p = (x, y)" by (cases p)
  show ?case
  proof (cases "coloring x")
    case None
    then show ?thesis
      by (simp add: p Cons clues_colored_def)
  next
    case (Some c0)
    then show ?thesis
      by (auto simp: p Cons clues_colored_def last_value_def dict_getitem_def fun_eq_iff)
  qed
qed

lemma build_lookup_empty:
  "build_lookup coloring clues Map.empty =
     Inr (\<lambda>c. last_value (clues_colored coloring clues c))"
  by (simp add: build_lookup_eq fun_eq_iff split: option.split)

text \<open>
  Claim C9. The colour-to-value lookup of the 9x9 decoder records, for each colour, the
  value of the last clue in list order whose cell is coloured with it: later clues
  overwrite earlier ones, whatever their values.
\<close>

theorem lookup_last_clue_wins:
  "\<exists>lookup. build_lookup coloring clues Map.empty = Inr lookup \<and>
     (\<forall>c. lookup c =
        (if clues_colored coloring clues c = [] then None
         else Some (snd (last (clues_colored coloring clues c)))))"
  by (simp add: build_lookup_empty last_value_def)

lemma last_value_in_clues:
  "last_value (clues_colored coloring clues c) = Some v \<Longrightarrow> v \<in> snd ` set clues"
proof -
  assume a: "last_value (clues_colored coloring clues c) = Some v"
  then have ne: "clues_colored coloring clues c \<noteq> []" and v: "v = snd (last (clues_colored coloring clues c))"
    by (auto simp: last_value_def split: if_splits)
  from ne have "last (clues_colored coloring clues c) \<in> set (clues_colored coloring clues c)"
    by (rule last_in_set)
  then have "last (clues_colored coloring clues c) \<in> set clues"
    by (simp add: clues_colored_def)
  with v show ?thesis by blast
qed

lemma decode_eq:
  "decode coloring clues =
     Inr (map (\<lambda>i. dict_get (\<lambda>c. last_value (clues_colored coloring clues c))
                      (dict_get coloring i (LStr ''?'')) 9) (py_range 81))"
  by (simp add: decode_def build_lookup_empty)

lemma length_py_range: "0 \<le> n \<Longrightarrow> length (py_range n) = nat n"
  by (simp add: py_range_def)

lemma nth_py_range: "0 \<le> i \<Longrightarrow> i < n \<Longrightarrow> py_range n ! nat i = i"
  by (simp add: py_range_def nth_upto)

lemma decode_total:
  "\<exists>solution. decode coloring clues = Inr solution \<and> length solution = 81 \<and>
     (\<forall>v\<in>set solution. v = 9 \<or> v \<in> snd ` set clues)"
proof -
  let ?lookup = "\<lambda>c. last_value (clues_colored coloring clues c)"
  have "dict_get ?lookup c 9 = 9 \<or> dict_get ?lookup c 9 \<in> snd ` set clues" for c
    by (cases "?lookup c") (auto simp: dict_get_def dest: last_value_in_clues)
  then show ?thesis
    unfolding decode_eq by (auto simp: length_py_range)
qed


lemma getitem_map_py_range:
  "0 \<le> i \<Longrightarrow> i < n \<Longrightarrow> list_getitem (map f (py_range n)) i = Inr (f i)"
  by (simp add: list_getitem_def length_py_range nth_py_range)

lemma decode_getitem:
  assumes "0 \<le> i" "i < 81"
  shows "\<exists>solution. decode coloring clues = Inr solution \<and>
           list_getitem solution i =
             Inr (dict_get (\<lambda>c. last_value (clues_colored coloring clues c))
                    (dict_get coloring i (LStr ''?'')) 9)"
  using assms
  by (simp add: decode_eq getitem_map_py_range)

text \<open>
  Claim C2 (amended). Every decoded entry is \<open>lookup.get(coloring.get(i, '?'), 9)\<close>.
  When no clue cell is coloured with the label \<open>'?'\<close> itself, that label is absent from
  the lookup, and the entry at a cell \<open>i\<close> in \<open>[0, 81)\<close> is 9 by fallback exactly when the
  cell is not coloured or its colour has no digit in the lookup, and the digit of its
  colour otherwise.
\<close>

theorem decode_fallback:
  "\<exists>lookup solution.
     build_lookup coloring clues Map.empty = Inr lookup \<and>
     decode coloring clues = Inr solution \<and>
     (\<forall>i. 0 \<le> i \<and> i < 81 \<longrightarrow>
        list_getitem solution i = Inr (dict_get lookup (dict_get coloring i (LStr ''?'')) 9)) \<and>
     ((\<forall>(x, y)\<in>set clues. coloring x \<noteq> Some (LStr ''?'')) \<longrightarrow>
        lookup (LStr ''?'') = None \<and>
        (\<forall>i. 0 \<le> i \<and> i < 81 \<longrightarrow>
           list_getitem solution i =
             Inr (case coloring i of
                    None \<Rightarrow> 9
                  | Some c \<Rightarrow> (case lookup c of None \<Rightarrow> 9 | Some v \<Rightarrow> v))))"
proof -
  let ?lookup = "\<lambda>c. last_value (clues_colored coloring clues c)"
  let ?solution = "map (\<lambda>i. dict_get ?lookup (dict_get coloring i (LStr ''?'')) 9) (py_range 81)"
  have cell: "list_getitem ?solution i = Inr (dict_get ?lookup (dict_get coloring i (LStr ''?'')) 9)"
    if "0 \<le> i \<and> i < 81" for i
    using that by (simp add: getitem_map_py_range)
  have absent: "?lookup (LStr ''?'') = None"
    if "\<forall>(x, y)\<in>set clues. coloring x \<noteq> Some (LStr ''?'')"
  proof -
    from that have "clues_colored coloring clues (LStr ''?'') = []"
      by (auto simp: clues_colored_def filter_empty_conv)
    then show ?thesis
      by (simp add: last_value_def)
  qed
  have branch: "list_getitem ?solution i =
      Inr (case coloring i of None \<Rightarrow> 9 | Some c \<Rightarrow> (case ?lookup c of None \<Rightarrow> 9 | Some v \<Rightarrow> v))"
    if "\<forall>(x, y)\<in>set clues. coloring x \<noteq> Some (LStr ''?'')" "0 \<le> i \<and> i < 81" for i
    using absent [OF that(1)] cell [OF that(2)]
    by (simp add: dict_get_def split: option.split)
  have "build_lookup coloring clues Map.empty = Inr ?lookup"
    by (rule build_lookup_empty)
  moreover have "decode coloring clues = Inr ?solution"
    by (rule decode_eq)
  ultimately show ?thesis
    using cell absent branch by (intro exI [of _ ?lookup] exI [of _ ?solution]) blast
qed

text \<open>
  Claim C2 as stated fails: the label \<open>'?'\<close> is not guaranteed absent from the lookup.
  With cell 0 coloured \<open>'?'\<close> and carrying the clue 5, the uncoloured cells decode to 5
  rather than 9.
\<close>

theorem decode_sentinel_counterexample:
  "(Map.empty(0 \<mapsto> LStr ''?'') :: coloring) 1 = None \<and>
   decode (Map.empty(0 \<mapsto> LStr ''?'')) [(0, 5)] = Inr (replicate 81 5)"
proof -
  have "dict_get (\<lambda>c. last_value (clues_colored (Map.empty(0 \<mapsto> LStr ''?'')) [(0, 5)] c))
          (dict_get (Map.empty(0 \<mapsto> LStr ''?'')) i (LStr ''?'')) 9 = 5" for i :: int
    by (simp add: dict_get_def clues_colored_def last_value_def)
  then show ?thesis
    by (simp add: decode_eq map_replicate_const length_py_range)
qed

text \<open>
  Claim C6. If every clue cell is coloured and two clue cells share a colour exactly
  when they share a value, the 9x9 decoder returns the clue's digit at every clue cell
  of the grid (index in \<open>[0, 81)\<close>).
\<close>

theorem decode_clue_cells:
  assumes colored: "\<forall>(x, y)\<in>set clues. coloring x \<noteq> None"
    and one_one: "\<forall>(x, y)\<in>set clues. \<forall>(x', y')\<in>set clues. (coloring x = coloring x') = (y = y')"
    and clue: "(i, v) \<in> set clues" and range: "0 \<le> i" "i < 81"
  shows "\<exists>solution. decode coloring clues = Inr solution \<and> list_getitem solution i = Inr v"
proof -
  from colored clue obtain c where c: "coloring i = Some c"
    by fastforce
  let ?ps = "clues_colored coloring clues c"
  from clue c have "(i, v) \<in> set ?ps"
    by (simp add: clues_colored_def)
  then have ne: "?ps \<noteq> []"
    by auto
  then have "last ?ps \<in> set ?ps"
    by (rule last_in_set)
  then have "last ?ps \<in> set clues \<and> coloring (fst (last ?ps)) = Some c"
    unfolding clues_colored_def by auto
  then obtain x' y' where l: "last ?ps = (x', y')" "(x', y') \<in> set clues" "coloring x' = Some c"
    by (cases "last ?ps") simp
  from one_one clue l(2) have "(coloring i = coloring x') = (v = y')"
    by fastforce
  with c l(3) have "y' = v"
    by simp
  with ne l(1) have "last_value ?ps = Some v"
    by (simp add: last_value_def)
  with c have "dict_get (\<lambda>c. last_value (clues_colored coloring clues c))
                 (dict_get coloring i (LStr ''?'')) 9 = v"
    by (simp add: dict_get_def)
  with decode_getitem [OF range, of coloring clues] show ?thesis
    by simp
qed


theorem lookup_last_clue_wins_witness:
  "build_lookup (Map.empty(0 \<mapsto> LInt 3, 1 \<mapsto> LInt 3)) [(0, 7), (1, 5)] Map.empty
     = Inr (Map.empty(LInt 3 \<mapsto> 5))
   \<and> build_lookup (Map.empty(0 \<mapsto> LInt 3, 1 \<mapsto> LInt 3)) [(1, 5), (0, 7)] Map.empty
     = Inr (Map.empty(LInt 3 \<mapsto> 7))"
proof -
  let ?col = "Map.empty(0 \<mapsto> LInt 3, 1 \<mapsto> LInt 3) :: coloring"
  from lookup_last_clue_wins [of ?col "[(0, 7), (1, 5)]"]
  obtain l1 where l1: "build_lookup ?col [(0, 7), (1, 5)] Map.empty = Inr l1"
    "\<forall>c. l1 c = (if clues_colored ?col [(0, 7), (1, 5)] c = [] then None
                  else Some (snd (last (clues_colored ?col [(0, 7), (1, 5)] c))))"
    by blast
  have "l1 = Map.empty(LInt 3 \<mapsto> 5)"
    by (rule ext) (simp add: l1(2) clues_colored_def)
  moreover
  from lookup_last_clue_wins [of ?col "[(1, 5), (0, 7)]"]
  obtain l2 where l2: "build_lookup ?col [(1, 5), (0, 7)] Map.empty = Inr l2"
    "\<forall>c. l2 c = (if clues_colored ?col [(1, 5), (0, 7)] c = [] then None
                  else Some (snd (last (clues_colored ?col [(1, 5), (0, 7)] c))))"
    by blast
  have "l2 = Map.empty(LInt 3 \<mapsto> 7)"
    by (rule ext) (simp add: l2(2) clues_colored_def)
  ultimately show ?thesis
    using l1(1) l2(1) by simp
qed

theorem decode_fallback_witness:
  "(Map.empty(0 \<mapsto> LInt 3, 1 \<mapsto> LInt 4) :: coloring) 0 \<noteq> Some (LStr ''?'')
   \<and> (\<exists>solution. decode (Map.empty(0 \<mapsto> LInt 3, 1 \<mapsto> LInt 4)) [(0, 7)] = Inr solution
        \<and> list_getitem solution 0 = Inr 7
        \<and> list_getitem solution 1 = Inr 9
        \<and> list_getitem solution 2 = Inr 9)"
proof -
  let ?col = "Map.empty(0 \<mapsto> LInt 3, 1 \<mapsto> LInt 4) :: coloring"
  have h: "\<forall>(x, y)\<in>set [(0, 7)]. ?col x \<noteq> Some (LStr ''?'')"
    by simp
  from decode_fallback [of ?col "[(0, 7)]"] h
  obtain lookup solution where
    l: "build_lookup ?col [(0, 7)] Map.empty = Inr lookup"
    and d: "decode ?col [(0, 7)] = Inr solution"
    and c: "\<forall>i. 0 \<le> i \<and> i < 81 \<longrightarrow>
              list_getitem solution i =
                Inr (case ?col i of
                       None \<Rightarrow> 9
                     | Some c \<Rightarrow> (case lookup c of None \<Rightarrow> 9 | Some v \<Rightarrow> v))"
    by blast
  from l have lookup: "lookup = Map.empty(LInt 3 \<mapsto> 7)"
    by (simp add: dict_getitem_def)
  have c0: "list_getitem solution 0 = Inr 7"
    using c [rule_format, of 0] by (simp add: lookup dict_get_def)
  have c1: "list_getitem solution 1 = Inr 9"
    using c [rule_format, of 1] by (simp add: lookup dict_get_def)
  have c2: "list_getitem solution 2 = Inr 9"
    using c [rule_format, of 2] by (simp add: lookup dict_get_def)
  from d c0 c1 c2
  have "\<exists>solution. decode ?col [(0, 7)] = Inr solution
        \<and> list_getitem solution 0 = Inr 7
        \<and> list_getitem solution 1 = Inr 9
        \<and> list_getitem solution 2 = Inr 9"
    by blast
  moreover have "?col 0 \<noteq> Some (LStr ''?'')"
    by simp
  ultimately show ?thesis
    by (rule conjI [rotated])
qed

theorem decode_clue_cells_witness:
  "(Map.empty(0 \<mapsto> LInt 3, 1 \<mapsto> LInt 4, 2 \<mapsto> LInt 3) :: coloring) 0 \<noteq> None
   \<and> (Map.empty(0 \<mapsto> LInt 3, 1 \<mapsto> LInt 4, 2 \<mapsto> LInt 3) :: coloring) 1 \<noteq> None
   \<and> (0, 7) \<in> set [(0, 7), (1, 5 :: int)] \<and> (0::int) \<le> 0 \<and> (0::int) < 81
   \<and> (\<exists>solution. decode (Map.empty(0 \<mapsto> LInt 3, 1 \<mapsto> LInt 4, 2 \<mapsto> LInt 3)) [(0, 7), (1, 5)]
          = Inr solution \<and> list_getitem solution 0 = Inr 7)"
proof -
  let ?col = "Map.empty(0 \<mapsto> LInt 3, 1 \<mapsto> LInt 4, 2 \<mapsto> LInt 3) :: coloring"
  let ?clues = "[(0, 7), (1, 5)] :: clue list"
  have colored: "\<forall>(x, y)\<in>set ?clues. ?col x \<noteq> None"
    by simp
  have one_one: "\<forall>(x, y)\<in>set ?clues. \<forall>(x', y')\<in>set ?clues. (?col x = ?col x') = (y = y')"
    by simp
  have clue: "(0, 7) \<in> set ?clues"
    by simp
  have ex: "\<exists>solution. decode ?col ?clues = Inr solution \<and> list_getitem solution 0 = Inr 7"
    by (rule decode_clue_cells [OF colored one_one clue]) simp_all
  have a: "?col 0 \<noteq> None" and b: "?col 1 \<noteq> None"
    by simp_all
  show ?thesis
    by (intro conjI a b clue ex) simp_all
qed

subsection \<open>Colourings with unhashable labels\<close>

lemma hash_key_hashable: "hashable v \<Longrightarrow> \<exists>c. hash_key v = Inr c"
  by (cases v) simp_all

lemma hash_key_unhashable: "\<not> hashable v \<Longrightarrow> hash_key v = Inl TypeError"
  by (cases v) simp_all

lemma build_lookup_any_hashable:
  assumes "\<forall>(x, y)\<in>set clues. \<forall>v. coloring x = Some v \<longrightarrow> hashable v"
  shows "\<exists>lookup. build_lookup_any coloring clues m = Inr lookup
           \<and> ran lookup \<subseteq> ran m \<union> snd ` set clues"
  using assms
proof (induction clues arbitrary: m)
  case Nil
  show ?case by simp
next
  case (Cons p clues)
  obtain x y where p: "p = (x, y)" by (cases p)
  from Cons.prems have rest: "\<forall>(x, y)\<in>set clues. \<forall>v. coloring x = Some v \<longrightarrow> hashable v"
    by simp
  show ?case
  proof (cases "coloring x")
    case None
    with Cons.IH [OF rest, of m] show ?thesis
      by (auto simp: p)
  next
    case (Some v)
    with Cons.prems have "hashable v"
      by (simp add: p)
    then obtain c where c: "hash_key v = Inr c"
      using hash_key_hashable by blast
    from Cons.IH [OF rest, of "m(c \<mapsto> y)"]
    obtain lookup where l: "build_lookup_any coloring clues (m(c \<mapsto> y)) = Inr lookup"
      "ran lookup \<subseteq> ran (m(c \<mapsto> y)) \<union> snd ` set clues"
      by blast
    have "ran (m(c \<mapsto> y)) \<subseteq> insert y (ran m)"
      by (auto simp: ran_def)
    with l(2) have "ran lookup \<subseteq> ran m \<union> snd ` set (p # clues)"
      by (auto simp: p)
    with l(1) show ?thesis
      by (simp add: p Some c dict_getitem_def)
  qed
qed

lemma build_lookup_any_unhashable:
  assumes "(x, y) \<in> set clues" "coloring x = Some v" "\<not> hashable v"
  shows "build_lookup_any coloring clues m = Inl TypeError"
  using assms(1)
proof (induction clues arbitrary: m)
  case Nil
  then show ?case by simp
next
  case (Cons p clues)
  obtain x' y' where p: "p = (x', y')" by (cases p)
  show ?case
  proof (cases "coloring x'")
    case None
    with assms(2) have "x' \<noteq> x" by auto
    with Cons.prems have "(x, y) \<in> set clues"
      by (simp add: p)
    with Cons.IH show ?thesis
      by (simp add: p None)
  next
    case (Some v')
    show ?thesis
    proof (cases "hashable v'")
      case False
      then show ?thesis
        by (simp add: p Some dict_getitem_def hash_key_unhashable)
    next
      case True
      then obtain c where c: "hash_key v' = Inr c"
        using hash_key_hashable by blast
      from True assms(2,3) Some have "x' \<noteq> x" by auto
      with Cons.prems have "(x, y) \<in> set clues"
        by (simp add: p)
      with Cons.IH show ?thesis
        by (simp add: p Some dict_getitem_def c)
    qed
  qed
qed

lemma build_lookup_any_error:
  "build_lookup_any coloring clues m = Inl e \<Longrightarrow> e = TypeError"
proof (induction clues arbitrary: m)
  case Nil
  then show ?case by simp
next
  case (Cons p clues)
  obtain x y where p: "p = (x, y)" by (cases p)
  show ?case
  proof (cases "coloring x")
    case None
    with Cons show ?thesis
      by (simp add: p)
  next
    case (Some v)
    show ?thesis
    proof (cases v)
      case (Hashable c)
      with Cons Some show ?thesis
        by (simp add: p dict_getitem_def)
    next
      case (PyList xs)
      with Cons.prems Some show ?thesis
        by (simp add: p dict_getitem_def)
    qed
  qed
qed

lemma decode_cells_hashable:
  assumes "\<forall>i\<in>set cells. \<forall>v. coloring i = Some v \<longrightarrow> hashable v"
  shows "\<exists>vs. decode_cells lookup coloring cells = Inr vs \<and> length vs = length cells
           \<and> (\<forall>v\<in>set vs. v = 9 \<or> v \<in> ran lookup)"
  using assms
proof (induction cells)
  case Nil
  show ?case by simp
next
  case (Cons i cells)
  from Cons.prems have "hashable (dict_get coloring i (Hashable (LStr ''?'')))"
    by (cases "coloring i") (simp_all add: dict_get_def)
  then obtain c where c: "hash_key (dict_get coloring i (Hashable (LStr ''?''))) = Inr c"
    using hash_key_hashable by blast
  from Cons obtain vs where vs: "decode_cells lookup coloring cells = Inr vs"
    "length vs = length cells" "\<forall>v\<in>set vs. v = 9 \<or> v \<in> ran lookup"
    by auto
  have "dict_get lookup c 9 = 9 \<or> dict_get lookup c 9 \<in> ran lookup"
    by (cases "lookup c") (auto simp: dict_get_def ran_def)
  with vs show ?case
    by (simp add: c)
qed

lemma decode_cells_unhashable:
  assumes "i \<in> set cells" "coloring i = Some v" "\<not> hashable v"
  shows "decode_cells lookup coloring cells = Inl TypeError"
  using assms(1)
proof (induction cells)
  case Nil
  then show ?case by simp
next
  case (Cons j cells)
  show ?case
  proof (cases "hashable (dict_get coloring j (Hashable (LStr ''?'')))")
    case False
    then show ?thesis
      by (simp add: hash_key_unhashable)
  next
    case True
    then obtain c where c: "hash_key (dict_get coloring j (Hashable (LStr ''?''))) = Inr c"
      using hash_key_hashable by blast
    from True assms(2,3) have "j \<noteq> i"
      by (auto simp: dict_get_def)
    with Cons.prems have "i \<in> set cells" by simp
    with Cons.IH show ?thesis
      by (simp add: c)
  qed
qed


lemma build_lookup_any_eq:
  "build_lookup_any (\<lambda>i. map_option Hashable (coloring i)) clues m = build_lookup coloring clues m"
proof (induction clues arbitrary: m)
  case Nil
  show ?case by simp
next
  case (Cons p clues)
  obtain x y where p: "p = (x, y)" by (cases p)
  show ?case
  proof (cases "coloring x")
    case None
    then show ?thesis
      by (simp add: p Cons)
  next
    case (Some c)
    let ?col = "\<lambda>i. map_option Hashable (coloring i)"
    have "build_lookup_any ?col (p # clues) m = build_lookup_any ?col clues (m(c \<mapsto> y))"
      by (simp add: p Some dict_getitem_def)
    also have "\<dots> = build_lookup coloring clues (m(c \<mapsto> y))"
      by (rule Cons)
    also have "\<dots> = build_lookup coloring (p # clues) m"
      by (simp add: p Some dict_getitem_def)
    finally show ?thesis .
  qed
qed

lemma decode_cells_eq:
  "decode_cells lookup (\<lambda>i. map_option Hashable (coloring i)) cells
     = Inr (map (\<lambda>i. dict_get lookup (dict_get coloring i (LStr ''?'')) 9) cells)"
proof (induction cells)
  case Nil
  show ?case by simp
next
  case (Cons i cells)
  show ?case
    by (cases "coloring i") (simp_all add: Cons dict_get_def)
qed

lemma decode_any_eq_decode:
  "decode_any (\<lambda>i. map_option Hashable (coloring i)) clues = decode coloring clues"
  by (simp add: decode_any_def decode_def build_lookup_any_eq build_lookup_empty decode_cells_eq)

text \<open>
  Claim C10 (amended). On every colouring whose labels at the grid cells and at the clue
  cells are hashable, and every clue list, the 9x9 decoder raises no error and returns
  81 entries, each the value of some clue or the constant 9. When one of those labels
  is unhashable the decoder raises \<open>TypeError\<close>.
\<close>

theorem decode_any_total:
  "((\<forall>i v. (0 \<le> i \<and> i < 81 \<or> i \<in> fst ` set clues) \<and> coloring i = Some v \<longrightarrow> hashable v) \<longrightarrow>
      (\<exists>solution. decode_any coloring clues = Inr solution \<and> length solution = 81 \<and>
         (\<forall>v\<in>set solution. v = 9 \<or> v \<in> snd ` set clues)))
   \<and> ((\<exists>i v. (0 \<le> i \<and> i < 81 \<or> i \<in> fst ` set clues) \<and> coloring i = Some v \<and> \<not> hashable v) \<longrightarrow>
      decode_any coloring clues = Inl TypeError)"
proof (intro conjI impI)
  assume h: "\<forall>i v. (0 \<le> i \<and> i < 81 \<or> i \<in> fst ` set clues) \<and> coloring i = Some v \<longrightarrow> hashable v"
  have "hashable v" if "(x, y) \<in> set clues" "coloring x = Some v" for x y v
  proof -
    from that(1) have "x \<in> fst ` set clues"
      by force
    with h that(2) show ?thesis
      by blast
  qed
  then have "\<forall>(x, y)\<in>set clues. \<forall>v. coloring x = Some v \<longrightarrow> hashable v"
    by blast
  from build_lookup_any_hashable [OF this, of Map.empty]
  obtain lookup where l: "build_lookup_any coloring clues Map.empty = Inr lookup"
    "ran lookup \<subseteq> snd ` set clues"
    by auto
  from h have "\<forall>i\<in>set (py_range 81). \<forall>v. coloring i = Some v \<longrightarrow> hashable v"
    unfolding py_range_set by blast
  from decode_cells_hashable [OF this, of lookup]
  obtain vs where vs: "decode_cells lookup coloring (py_range 81) = Inr vs"
    "length vs = length (py_range 81)" "\<forall>v\<in>set vs. v = 9 \<or> v \<in> ran lookup"
    by blast
  from vs(3) l(2) have "\<forall>v\<in>set vs. v = 9 \<or> v \<in> snd ` set clues"
    by blast
  moreover from vs(2) have "length vs = 81"
    by (simp add: length_py_range)
  moreover from l(1) vs(1) have "decode_any coloring clues = Inr vs"
    by (simp add: decode_any_def)
  ultimately show "\<exists>solution. decode_any coloring clues = Inr solution \<and> length solution = 81 \<and>
         (\<forall>v\<in>set solution. v = 9 \<or> v \<in> snd ` set clues)"
    by blast
next
  assume "\<exists>i v. (0 \<le> i \<and> i < 81 \<or> i \<in> fst ` set clues) \<and> coloring i = Some v \<and> \<not> hashable v"
  then obtain i v where iv: "0 \<le> i \<and> i < 81 \<or> i \<in> fst ` set clues" "coloring i = Some v"
      "\<not> hashable v"
    by blast
  show "decode_any coloring clues = Inl TypeError"
  proof (cases "i \<in> fst ` set clues")
    case True
    then obtain y where "(i, y) \<in> set clues"
      by auto
    from this iv(2,3) have "build_lookup_any coloring clues Map.empty = Inl TypeError"
      by (rule build_lookup_any_unhashable)
    then show ?thesis
      by (simp add: decode_any_def)
  next
    case False
    with iv(1) have "i \<in> set (py_range 81)"
      by (simp add: py_range_set)
    from this iv(2,3) have "decode_cells lookup coloring (py_range 81) = Inl TypeError" for lookup
      by (rule decode_cells_unhashable)
    then show ?thesis
      by (cases "build_lookup_any coloring clues Map.empty")
        (simp_all add: decode_any_def build_lookup_any_error)
  qed
qed

text \<open>
  Claim C10 as stated fails for a colouring that labels a cell with an unhashable value:
  with cell 0 labelled by the list \<open>[1]\<close> and no clue, \<open>lookup.get\<close> raises \<open>TypeError\<close>.
\<close>

theorem decode_any_unhashable_counterexample:
  "decode_any (Map.empty(0 \<mapsto> PyList [1])) [] = Inl TypeError"
proof -
  have "py_range 81 = 0 # [1..80]"
    by (simp add: py_range_def upto_rec1)
  then show ?thesis
    by (simp add: decode_any_def dict_get_def)
qed

theorem decode_any_total_witness:
  "(\<exists>solution.
      decode_any (Map.empty(0 \<mapsto> Hashable (LInt 3), 5 \<mapsto> Hashable (LStr ''x''), 200 \<mapsto> PyList [1]))
        [(0, 7), (90, 5)] = Inr solution
      \<and> length solution = 81 \<and> set solution \<subseteq> {9, 7, 5})
   \<and> decode_any (Map.empty(0 \<mapsto> Hashable (LInt 3), 90 \<mapsto> PyList [1])) [(0, 7), (90, 5)]
       = Inl TypeError"
proof -
  let ?ok = "Map.empty(0 \<mapsto> Hashable (LInt 3), 5 \<mapsto> Hashable (LStr ''x''), 200 \<mapsto> PyList [1])
             :: raw_coloring"
  let ?bad = "Map.empty(0 \<mapsto> Hashable (LInt 3), 90 \<mapsto> PyList [1]) :: raw_coloring"
  let ?clues = "[(0, 7), (90, 5)] :: clue list"
  have h: "\<forall>i v. (0 \<le> i \<and> i < 81 \<or> i \<in> fst ` set ?clues) \<and> ?ok i = Some v \<longrightarrow> hashable v"
    by (auto split: if_splits)
  have b: "\<exists>i v. (0 \<le> i \<and> i < 81 \<or> i \<in> fst ` set ?clues) \<and> ?bad i = Some v \<and> \<not> hashable v"
    by (rule exI [of _ 90], rule exI [of _ "PyList [1]"]) simp
  from decode_any_total [of ?clues ?ok] h
  obtain solution where s: "decode_any ?ok ?clues = Inr solution" "length solution = 81"
    "\<forall>v\<in>set solution. v = 9 \<or> v \<in> snd ` set ?clues"
    by blast
  from s(3) have "set solution \<subseteq> {9, 7, 5}"
    by auto
  with s(1,2) have ok: "\<exists>solution. decode_any ?ok ?clues = Inr solution
      \<and> length solution = 81 \<and> set solution \<subseteq> {9, 7, 5}"
    by blast
  from decode_any_total [of ?clues ?bad] b
  have bad: "decode_any ?bad ?clues = Inl TypeError"
    by blast
  from ok bad show ?thesis
    by (rule conjI)
qed

section \<open>The 4x4 decoder\<close>

lemma build_lookup4_eq:
  "build_lookup4 coloring clues m =
     (if \<forall>(x, y)\<in>set clues. coloring x \<noteq> None
      then build_lookup coloring clues m else Inl KeyError)"
proof (induction clues arbitrary: m)
  case Nil
  show ?case by simp
next
  case (Cons p clues)
  obtain x y where p: "p = (x, y)" by (cases p)
  show ?case
  proof (cases "coloring x")
    case None
    then show ?thesis
      by (simp add: p dict_getitem_def)
  next
    case (Some c)
    then show ?thesis
      by (simp add: p dict_getitem_def Cons)
  qed
qed

lemma lookup_cells_eq:
  "lookup_cells lookup coloring cells =
     (if \<forall>i\<in>set cells. \<exists>c. coloring i = Some c \<and> lookup c \<noteq> None
      then Inr (map (\<lambda>i. dict_get lookup (dict_get coloring i undefined) 0) cells)
      else Inl KeyError)"
  by (induction cells) (auto simp: dict_getitem_def dict_get_def split: option.splits)

lemma last_value_Some_iff:
  "(last_value (clues_colored coloring clues c) \<noteq> None) = (\<exists>(x, y)\<in>set clues. coloring x = Some c)"
  by (auto simp: last_value_def clues_colored_def filter_empty_conv)

lemma decode4_eq:
  "decode4 coloring clues =
     (if (\<forall>(x, y)\<in>set clues. coloring x \<noteq> None) \<and>
         (\<forall>i. 0 \<le> i \<and> i < 16 \<longrightarrow>
            (\<exists>c. coloring i = Some c \<and> (\<exists>(x, y)\<in>set clues. coloring x = Some c)))
      then Inr (disp4 (map (\<lambda>i. dict_get (\<lambda>c. last_value (clues_colored coloring clues c))
                                  (dict_get coloring i undefined) 0) (py_range 16)))
      else Inl KeyError)"
proof -
  let ?lookup = "\<lambda>c. last_value (clues_colored coloring clues c)"
  have cells: "(\<forall>i\<in>set (py_range 16). \<exists>c. coloring i = Some c \<and> ?lookup c \<noteq> None) =
      (\<forall>i. 0 \<le> i \<and> i < 16 \<longrightarrow>
         (\<exists>c. coloring i = Some c \<and> (\<exists>(x, y)\<in>set clues. coloring x = Some c)))"
    unfolding last_value_Some_iff py_range_set by blast
  show ?thesis
  proof (cases "\<forall>(x, y)\<in>set clues. coloring x \<noteq> None")
    case False
    then have "build_lookup4 coloring clues Map.empty = Inl KeyError"
      by (simp only: build_lookup4_eq if_False)
    then have "decode4 coloring clues = Inl KeyError"
      by (simp add: decode4_def)
    with False show ?thesis
      by (simp only: simp_thms if_False)
  next
    case True
    then have "build_lookup4 coloring clues Map.empty = Inr ?lookup"
      by (simp add: build_lookup4_eq build_lookup_empty)
    then have "decode4 coloring clues =
        (case lookup_cells ?lookup coloring (py_range 16) of
           Inl e \<Rightarrow> Inl e | Inr solution \<Rightarrow> Inr (disp4 solution))"
      by (simp add: decode4_def)
    also have "\<dots> =
        (if \<forall>i\<in>set (py_range 16). \<exists>c. coloring i = Some c \<and> ?lookup c \<noteq> None
         then Inr (disp4 (map (\<lambda>i. dict_get ?lookup (dict_get coloring i undefined) 0)
                            (py_range 16)))
         else Inl KeyError)"
      by (simp only: lookup_cells_eq sum.case if_distrib [of "case_sum Inl (\<lambda>s. Inr (disp4 s))"])
    finally show ?thesis
      using True unfolding cells by simp
  qed
qed

text \<open>
  Claim C8. The 4x4 decoder has no fallback: it fails with the lookup error \<open>KeyError\<close>
  whenever a cell of \<open>[0, 16)\<close> is missing from the colouring or the colour of such a cell
  is the colour of no clue cell, and it decodes without error when every clue cell and
  every grid cell is coloured and every grid cell's colour is that of some clue cell.
\<close>

theorem decode4_strict:
  "((\<exists>i. 0 \<le> i \<and> i < 16 \<and> coloring i = None) \<longrightarrow> decode4 coloring clues = Inl KeyError)
   \<and> ((\<exists>i c. 0 \<le> i \<and> i < 16 \<and> coloring i = Some c \<and> (\<forall>(x, y)\<in>set clues. coloring x \<noteq> Some c))
        \<longrightarrow> decode4 coloring clues = Inl KeyError)
   \<and> ((\<forall>(x, y)\<in>set clues. coloring x \<noteq> None) \<and>
        (\<forall>i. 0 \<le> i \<and> i < 16 \<longrightarrow>
           (\<exists>c. coloring i = Some c \<and> (\<exists>(x, y)\<in>set clues. coloring x = Some c)))
        \<longrightarrow> (\<exists>rows. decode4 coloring clues = Inr rows))"
  unfolding decode4_eq by fastforce

lemma example_coloring4_resolvable:
  "\<forall>i\<in>set [0..15].
     (case example_coloring4 i of
        None \<Rightarrow> False
      | Some c \<Rightarrow> list_ex (\<lambda>(x, y). example_coloring4 x = Some c) example_clues4)"
  by code_simp

lemma example_clues4_colored:
  "list_all (\<lambda>(x, y). example_coloring4 x \<noteq> None) example_clues4"
  by code_simp

theorem decode4_strict_witness:
  "decode4 Map.empty example_clues4 = Inl KeyError
   \<and> decode4 (\<lambda>i. Some (LStr ''F'')) [] = Inl KeyError
   \<and> (\<exists>rows. decode4 example_coloring4 example_clues4 = Inr rows)"
proof -
  have a: "\<exists>i. 0 \<le> i \<and> i < 16 \<and> (Map.empty :: coloring) i = None"
    by (rule exI [of _ 0]) simp
  have b: "\<exists>i c. 0 \<le> i \<and> i < 16 \<and> (\<lambda>i::int. Some (LStr ''F'')) i = Some c \<and>
             (\<forall>(x, y)\<in>set ([] :: clue list). (\<lambda>i::int. Some (LStr ''F'')) x \<noteq> Some c)"
    by (rule exI [of _ 0]) simp
  have c1: "\<forall>(x, y)\<in>set example_clues4. example_coloring4 x \<noteq> None"
    using example_clues4_colored by (simp add: list_all_iff)
  have c2: "\<forall>i. 0 \<le> i \<and> i < 16 \<longrightarrow>
      (\<exists>c. example_coloring4 i = Some c \<and> (\<exists>(x, y)\<in>set example_clues4. example_coloring4 x = Some c))"
  proof (intro allI impI)
    fix i :: int
    assume "0 \<le> i \<and> i < 16"
    then have "i \<in> set [0..15]"
      by simp
    with example_coloring4_resolvable
    have "case example_coloring4 i of
            None \<Rightarrow> False
          | Some c \<Rightarrow> list_ex (\<lambda>(x, y). example_coloring4 x = Some c) example_clues4"
      by blast
    then show "\<exists>c. example_coloring4 i = Some c \<and> (\<exists>(x, y)\<in>set example_clues4. example_coloring4 x = Some c)"
      by (cases "example_coloring4 i") (simp_all add: list_ex_iff)
  qed
  from decode4_strict [of Map.empty example_clues4] a
  have "decode4 Map.empty example_clues4 = Inl KeyError"
    by blast
  moreover
  from decode4_strict [of "\<lambda>i. Some (LStr ''F'')" "[]"] b
  have "decode4 (\<lambda>i. Some (LStr ''F'')) [] = Inl KeyError"
    by blast
  moreover
  from decode4_strict [of example_coloring4 example_clues4] c1 c2
  have "\<exists>rows. decode4 example_coloring4 example_clues4 = Inr rows"
    by blast
  ultimately show ?thesis
    by blast
qed

lemma decode4_example:
  "decode4 example_coloring4 example_clues4 = Inr [[4,2,1,3], [1,3,4,2], [3,1,2,4], [2,4,3,1]]"
  by code_simp

section \<open>The graph builder\<close>

lemma adj_add_edge: "adj (add_edge u v G) = insert (u, v) (insert (v, u) (adj G))"
  by (simp add: add_edge_def)

lemma nodes_add_edge: "nodes (add_edge u v G) = insert u (insert v (nodes G))"
  by (simp add: add_edge_def)

lemma adj_add_edges_from: "adj (add_edges_from es G) = adj G \<union> set es \<union> (set es)\<inverse>"
  unfolding add_edges_from_def
  by (induction es arbitrary: G) (auto simp: adj_add_edge)

lemma nodes_add_edges_from: "nodes (add_edges_from es G) = nodes G \<union> fst ` set es \<union> snd ` set es"
  unfolding add_edges_from_def
  by (induction es arbitrary: G) (auto simp: nodes_add_edge)

lemma adj_fold_clue_edges:
  "adj (fold (\<lambda>(c1, c2) G. if snd c1 \<noteq> snd c2 then add_edge (fst c1) (fst c2) G else G) ps G)
     = adj G \<union> {(fst c1, fst c2) | c1 c2. ((c1, c2) \<in> set ps \<or> (c2, c1) \<in> set ps) \<and> snd c1 \<noteq> snd c2}"
proof (induction ps arbitrary: G)
  case Nil
  show ?case by simp
next
  case (Cons p ps)
  obtain x1 v1 x2 v2 where p: "p = ((x1, v1), (x2, v2))" by (cases p) auto
  show ?case
    unfolding p fold_Cons comp_apply Cons
    by (auto simp: adj_add_edge)
qed

lemma nodes_fold_clue_edges:
  "nodes (fold (\<lambda>(c1, c2) G. if snd c1 \<noteq> snd c2 then add_edge (fst c1) (fst c2) G else G) ps G)
     = nodes G \<union> {fst c1 | c1 c2. ((c1, c2) \<in> set ps \<or> (c2, c1) \<in> set ps) \<and> snd c1 \<noteq> snd c2}"
proof (induction ps arbitrary: G)
  case Nil
  show ?case by simp
next
  case (Cons p ps)
  obtain x1 v1 x2 v2 where p: "p = ((x1, v1), (x2, v2))" by (cases p) auto
  show ?case
    unfolding p fold_Cons comp_apply Cons
    by (auto simp: nodes_add_edge)
qed

lemma combinations2_subset: "set (combinations2 xs) \<subseteq> set xs \<times> set xs"
  by (induction xs) auto

lemma combinations2_total:
  "a \<in> set xs \<Longrightarrow> b \<in> set xs \<Longrightarrow> a \<noteq> b \<Longrightarrow>
     (a, b) \<in> set (combinations2 xs) \<or> (b, a) \<in> set (combinations2 xs)"
  by (induction xs) auto

lemma combinations2_pairs:
  "a \<noteq> b \<Longrightarrow>
     ((a, b) \<in> set (combinations2 xs) \<or> (b, a) \<in> set (combinations2 xs)) = (a \<in> set xs \<and> b \<in> set xs)"
  using combinations2_subset [of xs] combinations2_total [of a xs b] by blast

lemma adj_add_clue_edges:
  "adj (add_clue_edges clues G)
     = adj G \<union> {(fst c1, fst c2) | c1 c2. c1 \<in> set clues \<and> c2 \<in> set clues \<and> snd c1 \<noteq> snd c2}"
proof -
  have "(((c1, c2) \<in> set (combinations2 clues) \<or> (c2, c1) \<in> set (combinations2 clues)) \<and> snd c1 \<noteq> snd c2)
      = (c1 \<in> set clues \<and> c2 \<in> set clues \<and> snd c1 \<noteq> snd c2)" for c1 c2 :: clue
    using combinations2_pairs [of c1 c2 clues] by auto
  then show ?thesis
    unfolding add_clue_edges_def adj_fold_clue_edges by simp
qed

lemma nodes_add_clue_edges:
  "nodes (add_clue_edges clues G)
     = nodes G \<union> {fst c1 | c1 c2. c1 \<in> set clues \<and> c2 \<in> set clues \<and> snd c1 \<noteq> snd c2}"
proof -
  have "(((c1, c2) \<in> set (combinations2 clues) \<or> (c2, c1) \<in> set (combinations2 clues)) \<and> snd c1 \<noteq> snd c2)
      = (c1 \<in> set clues \<and> c2 \<in> set clues \<and> snd c1 \<noteq> snd c2)" for c1 c2 :: clue
    using combinations2_pairs [of c1 c2 clues] by auto
  then show ?thesis
    unfolding add_clue_edges_def nodes_fold_clue_edges by simp
qed

lemma add_clue_edges_set:
  assumes "set clues' = set clues"
  shows "add_clue_edges clues' G = add_clue_edges clues G"
  by (rule graph.equality) (simp_all add: adj_add_clue_edges nodes_add_clue_edges assms)

lemma has_selfloop_iff: "has_selfloop G = (\<exists>u. (u, u) \<in> adj G)"
  by (auto simp: has_selfloop_def)

lemma structural_no_selfloop:
  "(u, u) \<notin> set (filter (\<lambda>(i, j). adjacent i j) ps)"
  "(u, u) \<notin> set (filter (\<lambda>(i, j). adjacent4 i j) ps)"
  by (simp_all add: adjacent_def adjacent4_def)

lemma selfloop_make_sudoku_graph:
  "has_selfloop (make_sudoku_graph clues)
     = (\<exists>c1\<in>set clues. \<exists>c2\<in>set clues. fst c1 = fst c2 \<and> snd c1 \<noteq> snd c2)"
proof -
  have "((u, u) \<in> adj (make_sudoku_graph clues))
      = (\<exists>c1 c2. c1 \<in> set clues \<and> c2 \<in> set clues \<and> snd c1 \<noteq> snd c2 \<and> u = fst c1 \<and> u = fst c2)" for u
    unfolding make_sudoku_graph_def adj_add_clue_edges adj_add_edges_from
    using structural_no_selfloop(1) [of u]
    by (simp add: empty_graph_def; blast)
  then show ?thesis
    unfolding has_selfloop_iff by (simp add: Bex_def; metis)
qed

lemma selfloop_make_sudoku_graph4:
  "has_selfloop (make_sudoku_graph4 clues)
     = (\<exists>c1\<in>set clues. \<exists>c2\<in>set clues. fst c1 = fst c2 \<and> snd c1 \<noteq> snd c2)"
proof -
  have "((u, u) \<in> adj (make_sudoku_graph4 clues))
      = (\<exists>c1 c2. c1 \<in> set clues \<and> c2 \<in> set clues \<and> snd c1 \<noteq> snd c2 \<and> u = fst c1 \<and> u = fst c2)" for u
    unfolding make_sudoku_graph4_def adj_add_clue_edges adj_add_edges_from
    using structural_no_selfloop(2) [of u]
    by (simp add: empty_graph_def; blast)
  then show ?thesis
    unfolding has_selfloop_iff by (simp add: Bex_def; metis)
qed

lemma make_sudoku_graph_set:
  assumes "set clues' = set clues"
  shows "make_sudoku_graph clues' = make_sudoku_graph clues"
    and "make_sudoku_graph4 clues' = make_sudoku_graph4 clues"
proof -
  show "make_sudoku_graph clues' = make_sudoku_graph clues"
    unfolding make_sudoku_graph_def by (rule add_clue_edges_set [OF assms])
  show "make_sudoku_graph4 clues' = make_sudoku_graph4 clues"
    unfolding make_sudoku_graph4_def by (rule add_clue_edges_set [OF assms])
qed

text \<open>
  Claim C7 (amended). The graph built from a clue list has a self-loop exactly when
  some cell index occurs in two clues with different values, so there is none when
  every cell carries at most one clue value; and the graph, hence its edge set and
  edge count, is unchanged under any permutation of the clue list. Both variants.
\<close>

theorem graph_selfloops_and_permutations:
  "has_selfloop (make_sudoku_graph clues)
     = (\<exists>c1\<in>set clues. \<exists>c2\<in>set clues. fst c1 = fst c2 \<and> snd c1 \<noteq> snd c2)
   \<and> has_selfloop (make_sudoku_graph4 clues)
     = (\<exists>c1\<in>set clues. \<exists>c2\<in>set clues. fst c1 = fst c2 \<and> snd c1 \<noteq> snd c2)
   \<and> (mset clues' = mset clues \<longrightarrow>
        make_sudoku_graph clues' = make_sudoku_graph clues
        \<and> edge_set (make_sudoku_graph clues') = edge_set (make_sudoku_graph clues)
        \<and> number_of_edges (make_sudoku_graph clues') = number_of_edges (make_sudoku_graph clues)
        \<and> make_sudoku_graph4 clues' = make_sudoku_graph4 clues
        \<and> edge_set (make_sudoku_graph4 clues') = edge_set (make_sudoku_graph4 clues)
        \<and> number_of_edges (make_sudoku_graph4 clues') = number_of_edges (make_sudoku_graph4 clues))"
proof -
  have sl9: "has_selfloop (make_sudoku_graph clues)
     = (\<exists>c1\<in>set clues. \<exists>c2\<in>set clues. fst c1 = fst c2 \<and> snd c1 \<noteq> snd c2)"
    by (rule selfloop_make_sudoku_graph)
  have sl4: "has_selfloop (make_sudoku_graph4 clues)
     = (\<exists>c1\<in>set clues. \<exists>c2\<in>set clues. fst c1 = fst c2 \<and> snd c1 \<noteq> snd c2)"
    by (rule selfloop_make_sudoku_graph4)
  have perm: "mset clues' = mset clues \<longrightarrow>
        make_sudoku_graph clues' = make_sudoku_graph clues
        \<and> edge_set (make_sudoku_graph clues') = edge_set (make_sudoku_graph clues)
        \<and> number_of_edges (make_sudoku_graph clues') = number_of_edges (make_sudoku_graph clues)
        \<and> make_sudoku_graph4 clues' = make_sudoku_graph4 clues
        \<and> edge_set (make_sudoku_graph4 clues') = edge_set (make_sudoku_graph4 clues)
        \<and> number_of_edges (make_sudoku_graph4 clues') = number_of_edges (make_sudoku_graph4 clues)"
  proof
    assume "mset clues' = mset clues"
    then have s: "set clues' = set clues"
      by (rule mset_eq_setD)
    have g9: "make_sudoku_graph clues' = make_sudoku_graph clues"
      by (rule make_sudoku_graph_set(1) [OF s])
    have g4: "make_sudoku_graph4 clues' = make_sudoku_graph4 clues"
      by (rule make_sudoku_graph_set(2) [OF s])
    show "make_sudoku_graph clues' = make_sudoku_graph clues
        \<and> edge_set (make_sudoku_graph clues') = edge_set (make_sudoku_graph clues)
        \<and> number_of_edges (make_sudoku_graph clues') = number_of_edges (make_sudoku_graph clues)
        \<and> make_sudoku_graph4 clues' = make_sudoku_graph4 clues
        \<and> edge_set (make_sudoku_graph4 clues') = edge_set (make_sudoku_graph4 clues)
        \<and> number_of_edges (make_sudoku_graph4 clues') = number_of_edges (make_sudoku_graph4 clues)"
      unfolding g9 g4 by (intro conjI refl)
  qed
  from sl9 sl4 perm show ?thesis
    by (intro conjI)
qed

text \<open>
  Claim C7 as stated fails for a clue list that gives one cell two different values:
  the clue loop then adds the edge from the cell to itself.
\<close>

theorem graph_selfloop_counterexample:
  "has_selfloop (make_sudoku_graph [(0, 1), (0, 2)])
   \<and> has_selfloop (make_sudoku_graph4 [(0, 1), (0, 2)])"
  by (simp add: selfloop_make_sudoku_graph selfloop_make_sudoku_graph4)

theorem graph_selfloops_and_permutations_witness:
  "\<not> has_selfloop (make_sudoku_graph example_clues4)
   \<and> \<not> has_selfloop (make_sudoku_graph4 example_clues4)
   \<and> mset (rev example_clues4) = mset example_clues4
   \<and> make_sudoku_graph (rev example_clues4) = make_sudoku_graph example_clues4
   \<and> number_of_edges (make_sudoku_graph4 (rev example_clues4))
       = number_of_edges (make_sudoku_graph4 example_clues4)"
proof -
  have one: "\<not> (\<exists>c1\<in>set example_clues4. \<exists>c2\<in>set example_clues4. fst c1 = fst c2 \<and> snd c1 \<noteq> snd c2)"
    by (simp add: example_clues4_def)
  have perm: "mset (rev example_clues4) = mset example_clues4"
    by simp
  note inst = graph_selfloops_and_permutations [of example_clues4 "rev example_clues4"]
  from inst one have a: "\<not> has_selfloop (make_sudoku_graph example_clues4)"
    by (simp only: simp_thms)
  from inst one have b: "\<not> has_selfloop (make_sudoku_graph4 example_clues4)"
    by (simp only: simp_thms)
  from inst perm have c: "make_sudoku_graph (rev example_clues4) = make_sudoku_graph example_clues4"
    by (simp only: simp_thms)
  from inst perm have d: "number_of_edges (make_sudoku_graph4 (rev example_clues4))
       = number_of_edges (make_sudoku_graph4 example_clues4)"
    by (simp only: simp_thms)
  show ?thesis
    by (intro conjI a b perm c d)
qed

section \<open>The clue extractor\<close>

lemma digit_value_range:
  "isdecimal x \<Longrightarrow> x \<noteq> CHR ''0'' \<Longrightarrow>
     1 \<le> int (of_char x) - 48 \<and> int (of_char x) - 48 \<le> 9"
  by (auto simp: isdecimal_def)

lemma real_clues_ascii:
  assumes "\<forall>(i, x)\<in>set ps. isdigit x \<longrightarrow> isdecimal x"
  shows "real_clues ps =
           Inr (map (\<lambda>(i, x). (i, int (of_char x) - 48))
                  (filter (\<lambda>(i, x). isdigit x \<and> x \<noteq> CHR ''0'') ps))"
  using assms
proof (induction ps)
  case Nil
  show ?case by simp
next
  case (Cons p ps)
  obtain i x where p: "p = (i, x)" by (cases p)
  from Cons.prems have rest: "\<forall>(i, x)\<in>set ps. isdigit x \<longrightarrow> isdecimal x"
    by simp
  from Cons.prems have x: "isdigit x \<longrightarrow> isdecimal x"
    by (simp add: p)
  show ?case
  proof (cases "isdigit x \<and> x \<noteq> CHR ''0''")
    case True
    with x have "py_int x = Inr (int (of_char x) - 48)"
      by (simp only: py_int_def if_True)
    with True show ?thesis
      by (simp add: p Cons.IH [OF rest])
  next
    case False
    then have "real_clues ((i, x) # ps) = real_clues ps"
      by (simp only: real_clues.simps if_False)
    moreover from False
    have "filter (\<lambda>(i, x). isdigit x \<and> x \<noteq> CHR ''0'') ((i, x) # ps)
            = filter (\<lambda>(i, x). isdigit x \<and> x \<noteq> CHR ''0'') ps"
      by (simp only: filter.simps prod.case if_False)
    ultimately show ?thesis
      by (simp only: p Cons.IH [OF rest])
  qed
qed

lemma map_add_upt: "map (\<lambda>i. a + int i) [0..<n] = [a..a + int n - 1]"
proof (induction n)
  case 0
  show ?case by simp
next
  case (Suc n)
  have "[a..a + int (Suc n) - 1] = [a..a + int n - 1] @ [a + int n]"
    using upto_rec2 [of a "a + int n"] by simp
  with Suc show ?case by simp
qed

lemma py_enumerate_fst: "map fst (py_enumerate xs) = map int [0..<length xs]"
  by (simp add: py_enumerate_def)

lemma py_enumerate_snd: "map snd (py_enumerate xs) = xs"
  by (simp add: py_enumerate_def)

lemma py_enumerate_index:
  "(i, x) \<in> set (py_enumerate xs) \<Longrightarrow> 0 \<le> i \<and> i < int (length xs) \<and> x \<in> set xs"
  by (auto simp: py_enumerate_def set_zip)


lemma set_py_range2_1_10: "set (py_range2 1 10) = {1..9}"
  by (simp add: py_range2_def)

text \<open>
  On every grid of 81 characters whose \<open>isdigit\<close> characters are all decimal digits
  \<open>0\<close> to \<open>9\<close>, and whatever the iteration order of the set of missing values,
  \<open>make_clues\<close> returns the real clues followed by the phantom clues: a real clue
  \<open>(i, digit)\<close> for every character other than \<open>0\<close> that is a digit, with index below
  81, and one phantom clue for each value of 1 to 9 missing among the real clues, at the
  indices 81, 82, ... in turn; the values of the clues are exactly 1 to 9.
\<close>

theorem make_clues_covers:
  assumes len: "length board = 81"
    and ascii: "\<forall>x\<in>set board. isdigit x \<longrightarrow> isdecimal x"
    and iter: "\<forall>S. finite S \<longrightarrow> set (iter S) = S \<and> distinct (iter S)"
  shows "\<exists>real phantom.
           make_clues iter board = Inr (real @ phantom)
           \<and> real = map (\<lambda>(i, x). (i, int (of_char x) - 48))
                      (filter (\<lambda>(i, x). isdigit x \<and> x \<noteq> CHR ''0'') (py_enumerate board))
           \<and> (\<forall>(i, v)\<in>set real. 0 \<le> i \<and> i < 81 \<and> 1 \<le> v \<and> v \<le> 9)
           \<and> map fst phantom = [81..80 + int (length phantom)]
           \<and> distinct (map snd phantom)
           \<and> set (map snd phantom) = {1..9} - snd ` set real
           \<and> snd ` set (real @ phantom) = {1..9}"
proof -
  let ?real = "map (\<lambda>(i, x). (i, int (of_char x) - 48))
                 (filter (\<lambda>(i, x). isdigit x \<and> x \<noteq> CHR ''0'') (py_enumerate board))"
  let ?M = "set (py_range2 1 10) - set (map snd ?real)"
  let ?ms = "iter ?M"
  let ?phantom = "map (\<lambda>(i, j). (81 + i, j)) (py_enumerate ?ms)"
  have enum: "\<forall>(i, x)\<in>set (py_enumerate board). isdigit x \<longrightarrow> isdecimal x"
    using ascii by (auto dest: py_enumerate_index)
  have real: "real_clues (py_enumerate board) = Inr ?real"
    using enum by (rule real_clues_ascii)
  then have mk: "make_clues iter board = Inr (?real @ ?phantom)"
    by (simp add: make_clues_def Let_def)
  have range: "\<forall>(i, v)\<in>set ?real. 0 \<le> i \<and> i < 81 \<and> 1 \<le> v \<and> v \<le> 9"
  proof -
    have "0 \<le> i \<and> i < 81 \<and> 1 \<le> int (of_char x) - 48 \<and> int (of_char x) - 48 \<le> 9"
      if "(i, x) \<in> set (py_enumerate board)" "isdigit x" "x \<noteq> CHR ''0''" for i x
    proof -
      from that(1) have "0 \<le> i \<and> i < 81" and "x \<in> set board"
        using py_enumerate_index [of i x board] len by simp_all
      moreover from ascii \<open>x \<in> set board\<close> that(2) have "isdecimal x"
        by blast
      ultimately show ?thesis
        using digit_value_range [of x] that(3) by blast
    qed
    then show ?thesis
      by auto
  qed
  have "finite ?M"
    by simp
  with iter have ms: "set ?ms = ?M" "distinct ?ms"
    by blast+
  have fst_ph: "map fst ?phantom = [81..80 + int (length ?phantom)]"
  proof -
    have "map fst ?phantom = map (\<lambda>i. 81 + i) (map fst (py_enumerate ?ms))"
      by (simp add: case_prod_unfold comp_def)
    also have "\<dots> = map (\<lambda>i. 81 + int i) [0..<length ?ms]"
      by (simp add: py_enumerate_fst comp_def)
    also have "\<dots> = [81..81 + int (length ?ms) - 1]"
      by (rule map_add_upt)
    also have "\<dots> = [81..80 + int (length ?phantom)]"
      by (simp add: py_enumerate_def)
    finally show ?thesis .
  qed
  have snd_ph: "map snd ?phantom = ?ms"
  proof -
    have "map snd ?phantom = map snd (py_enumerate ?ms)"
      by (simp add: case_prod_unfold comp_def)
    then show ?thesis
      by (simp add: py_enumerate_snd)
  qed
  have vals: "set (map snd ?phantom) = {1..9} - snd ` set ?real"
  proof -
    have "set (map snd ?phantom) = set ?ms"
      by (simp only: snd_ph)
    also have "\<dots> = ?M"
      by (rule ms(1))
    also have "\<dots> = {1..9} - snd ` set ?real"
      by (simp only: set_py_range2_1_10 set_map)
    finally show ?thesis .
  qed
  have sub: "snd ` set ?real \<subseteq> {1..9}"
    using range by auto
  have all: "snd ` set (?real @ ?phantom) = {1..9}"
  proof -
    have "snd ` set (?real @ ?phantom) = snd ` set ?real \<union> set (map snd ?phantom)"
      by (simp only: set_append image_Un set_map)
    with sub show ?thesis
      unfolding vals by blast
  qed
  from ms(2) have dist: "distinct (map snd ?phantom)"
    by (simp only: snd_ph)
  from mk range fst_ph dist vals all show ?thesis
    by (intro exI [of _ ?real] exI [of _ ?phantom] conjI refl)
qed

lemma make_clues_example:
  "make_clues sorted_list_of_set example_grid
     = Inr [(0, 1), (1, 2), (81, 3), (82, 4), (83, 5), (84, 6), (85, 7), (86, 8), (87, 9)]"
  by code_simp


theorem make_clues_covers_witness:
  "length example_grid = 81
   \<and> (\<exists>clues. make_clues sorted_list_of_set example_grid = Inr clues \<and> snd ` set clues = {1..9})
   \<and> make_clues sorted_list_of_set example_grid
       = Inr [(0, 1), (1, 2), (81, 3), (82, 4), (83, 5), (84, 6), (85, 7), (86, 8), (87, 9)]"
proof -
  have len: "length example_grid = 81"
    by (simp add: example_grid_def)
  have ascii: "\<forall>x\<in>set example_grid. isdigit x \<longrightarrow> isdecimal x"
    by (simp add: example_grid_def isdigit_def isdecimal_def)
  have iter: "\<forall>S :: int set. finite S \<longrightarrow>
      set (sorted_list_of_set S) = S \<and> distinct (sorted_list_of_set S)"
    by simp
  from make_clues_covers [OF len ascii iter]
  obtain real phantom where
    "make_clues sorted_list_of_set example_grid = Inr (real @ phantom)"
    "snd ` set (real @ phantom) = {1..9}"
    by blast
  then have "\<exists>clues. make_clues sorted_list_of_set example_grid = Inr clues
      \<and> snd ` set clues = {1..9}"
    by blast
  with len make_clues_example show ?thesis
    by blast
qed

text \<open>
  Claim C4. For every grid of 81 characters \<open>make_clues\<close> should return a clue list
  whose values are exactly 1 to 9. The code does not on a grid that contains the
  superscript two: \<open>x.isdigit()\<close>, the test that guards \<open>int(x)\<close>, accepts the character,
  \<open>int\<close> rejects it, and \<open>make_clues\<close> raises \<open>ValueError\<close> instead of returning clues.
\<close>

theorem make_clues_superscript_raises:
  "length (CHR 0xB2 # replicate 80 (CHR ''.'')) = 81
   \<and> make_clues sorted_list_of_set (CHR 0xB2 # replicate 80 (CHR ''.'')) = Inl ValueError"
proof -
  have "py_enumerate (CHR 0xB2 # replicate 80 (CHR ''.''))
          = (0, CHR 0xB2) # zip (map int [1..<81]) (replicate 80 (CHR ''.''))"
    by (simp add: py_enumerate_def upt_conv_Cons)
  then show ?thesis
    by (simp add: make_clues_def isdigit_def isdecimal_def py_int_def)
qed

end
